theory Spec2Isabelle
  imports Complex_Main "HOL-Library.Word" "HOL-Library.Char_ord" "HOL-Library.List_Lexorder"
    "HOL-Library.Multiset"
begin

unbundle bit_operations_syntax

section \<open>Python strings and bytes\<close>

text \<open>
  A Python \<open>str\<close> is a sequence of code points. This development covers the code points
  U+0000 to U+00FF: a \<^typ>\<open>char\<close> is one such code point (\<^term>\<open>of_char c :: nat\<close> is its
  number) and a \<^typ>\<open>string\<close> is a Python string over them. Code points above U+00FF are
  outside the model. \<open>bytes\<close> are lists of 8-bit words.
\<close>

type_synonym byte = "8 word"

text \<open>\<open>str.isspace\<close> on U+0000..U+00FF, the separators of \<open>str.split()\<close>.\<close>

definition is_space :: "char \<Rightarrow> bool" where
  "is_space c = ((of_char c :: nat) \<in> set [9, 10, 11, 12, 13, 28, 29, 30, 31, 32, 133, 160])"

text \<open>\<open>str.lower\<close> on U+0000..U+00FF: A-Z and the Latin-1 capitals (U+00C0..U+00DE
  without the multiplication sign U+00D7) move up by 32.\<close>

definition lower_char :: "char \<Rightarrow> char" where
  "lower_char c =
     (let n = (of_char c :: nat)
      in if (65 \<le> n \<and> n \<le> 90) \<or> (192 \<le> n \<and> n \<le> 222 \<and> n \<noteq> 215)
         then char_of (n + 32) else c)"

definition lower :: "string \<Rightarrow> string" where
  "lower s = map lower_char s"

text \<open>\<open>s.split()\<close> without arguments: maximal runs of non-whitespace, in order. The first
  argument is the word being scanned.\<close>

fun split_from :: "string \<Rightarrow> string \<Rightarrow> string list" where
  "split_from cur [] = (if cur = [] then [] else [cur])"
| "split_from cur (c # cs) =
     (if is_space c
      then (if cur = [] then split_from [] cs else cur # split_from [] cs)
      else split_from (cur @ [c]) cs)"

definition split :: "string \<Rightarrow> string list" where
  "split s = split_from [] s"

text \<open>\<open>sep.join(parts)\<close>.\<close>

fun join :: "string \<Rightarrow> string list \<Rightarrow> string" where
  "join sep [] = []"
| "join sep [x] = x"
| "join sep (x # y # ys) = x @ sep @ join sep (y # ys)"

text \<open>\<open>s.encode()\<close> (UTF-8): one byte below U+0080, two bytes from U+0080 to U+00FF.\<close>

definition utf8_char :: "char \<Rightarrow> byte list" where
  "utf8_char c =
     (let n = (of_char c :: nat)
      in if n < 128 then [of_nat n] else [of_nat (192 + n div 64), of_nat (128 + n mod 64)])"

definition encode :: "string \<Rightarrow> byte list" where
  "encode s = concat (map utf8_char s)"

text \<open>Lower-case hexadecimal, as \<open>hexdigest\<close> prints it.\<close>

definition hex_digit :: "nat \<Rightarrow> char" where
  "hex_digit n = ''0123456789abcdef'' ! (n mod 16)"

definition hex_byte :: "byte \<Rightarrow> string" where
  "hex_byte b = [hex_digit (unat b div 16), hex_digit (unat b mod 16)]"

definition hex :: "byte list \<Rightarrow> string" where
  "hex bs = concat (map hex_byte bs)"

definition is_hex_char :: "char \<Rightarrow> bool" where
  "is_hex_char c = (c \<in> set ''0123456789abcdef'')"

definition is_hex :: "string \<Rightarrow> bool" where
  "is_hex s = list_all is_hex_char s"

text \<open>Cutting a list into blocks of \<open>n\<close> elements (the last one may be shorter).\<close>

function chunks :: "nat \<Rightarrow> 'a list \<Rightarrow> 'a list list" where
  "chunks n xs = (if n = 0 \<or> xs = [] then [] else take n xs # chunks n (drop n xs))"
  by pat_completeness auto
termination
  by (relation "measure (\<lambda>(n, xs). length xs)") auto

declare chunks.simps [simp del]

section \<open>SHA-256 (\<open>hashlib.sha256\<close>)\<close>

text \<open>The digest of FIPS 180-4 on 32-bit words: padding, message schedule, 64 rounds per
  512-bit block.\<close>

definition sha256_K :: "32 word list" where
  "sha256_K =
    [0x428A2F98, 0x71374491, 0xB5C0FBCF, 0xE9B5DBA5, 0x3956C25B, 0x59F111F1,
     0x923F82A4, 0xAB1C5ED5, 0xD807AA98, 0x12835B01, 0x243185BE, 0x550C7DC3,
     0x72BE5D74, 0x80DEB1FE, 0x9BDC06A7, 0xC19BF174, 0xE49B69C1, 0xEFBE4786,
     0x0FC19DC6, 0x240CA1CC, 0x2DE92C6F, 0x4A7484AA, 0x5CB0A9DC, 0x76F988DA,
     0x983E5152, 0xA831C66D, 0xB00327C8, 0xBF597FC7, 0xC6E00BF3, 0xD5A79147,
     0x06CA6351, 0x14292967, 0x27B70A85, 0x2E1B2138, 0x4D2C6DFC, 0x53380D13,
     0x650A7354, 0x766A0ABB, 0x81C2C92E, 0x92722C85, 0xA2BFE8A1, 0xA81A664B,
     0xC24B8B70, 0xC76C51A3, 0xD192E819, 0xD6990624, 0xF40E3585, 0x106AA070,
     0x19A4C116, 0x1E376C08, 0x2748774C, 0x34B0BCB5, 0x391C0CB3, 0x4ED8AA4A,
     0x5B9CCA4F, 0x682E6FF3, 0x748F82EE, 0x78A5636F, 0x84C87814, 0x8CC70208,
     0x90BEFFFA, 0xA4506CEB, 0xBEF9A3F7, 0xC67178F2]"

definition sha256_init :: "32 word list" where
  "sha256_init =
    [0x6A09E667, 0xBB67AE85, 0x3C6EF372, 0xA54FF53A,
     0x510E527F, 0x9B05688C, 0x1F83D9AB, 0x5BE0CD19]"

definition rotr :: "nat \<Rightarrow> 32 word \<Rightarrow> 32 word" where
  "rotr n w = drop_bit n w OR push_bit (32 - n) w"

definition rotl :: "nat \<Rightarrow> 32 word \<Rightarrow> 32 word" where
  "rotl n w = push_bit n w OR drop_bit (32 - n) w"

text \<open>Four bytes as one word, most significant byte first, and back.\<close>

fun be32 :: "byte list \<Rightarrow> 32 word" where
  "be32 [] = 0"
| "be32 (b # bs) = push_bit (8 * length bs) (ucast b) OR be32 bs"

definition be_bytes :: "nat \<Rightarrow> nat \<Rightarrow> byte list" where
  "be_bytes k n = map (\<lambda>i. of_nat (n div 256 ^ (k - 1 - i))) [0..<k]"

definition le_bytes :: "nat \<Rightarrow> nat \<Rightarrow> byte list" where
  "le_bytes k n = map (\<lambda>i. of_nat (n div 256 ^ i)) [0..<k]"

text \<open>Padding shared by SHA-256 and MD5: a 0x80 byte, zero bytes up to 56 modulo 64, then
  the bit length modulo \<open>2^64\<close> in 8 bytes (\<open>len_bytes\<close> decides the byte order).\<close>

definition pad :: "(nat \<Rightarrow> nat \<Rightarrow> byte list) \<Rightarrow> byte list \<Rightarrow> byte list" where
  "pad len_bytes msg =
     msg @ [0x80] @ replicate ((64 - (length msg + 9) mod 64) mod 64) 0
         @ len_bytes 8 ((8 * length msg) mod 2 ^ 64)"

definition sha256_s0 :: "32 word \<Rightarrow> 32 word" where
  "sha256_s0 x = rotr 7 x XOR rotr 18 x XOR drop_bit 3 x"

definition sha256_s1 :: "32 word \<Rightarrow> 32 word" where
  "sha256_s1 x = rotr 17 x XOR rotr 19 x XOR drop_bit 10 x"

fun sha256_extend :: "nat \<Rightarrow> 32 word list \<Rightarrow> 32 word list" where
  "sha256_extend 0 w = w"
| "sha256_extend (Suc k) w =
     (let t = length w
      in sha256_extend k
           (w @ [sha256_s1 (w ! (t - 2)) + w ! (t - 7) + sha256_s0 (w ! (t - 15)) + w ! (t - 16)]))"

definition sha256_schedule :: "byte list \<Rightarrow> 32 word list" where
  "sha256_schedule block = sha256_extend 48 (map be32 (chunks 4 block))"

fun sha256_round :: "32 word list \<Rightarrow> 32 word \<times> 32 word \<Rightarrow> 32 word list" where
  "sha256_round [a, b, c, d, e, f, g, h] (k, w) =
     (let S1 = rotr 6 e XOR rotr 11 e XOR rotr 25 e;
          ch = (e AND f) XOR (NOT e AND g);
          t1 = h + S1 + ch + k + w;
          S0 = rotr 2 a XOR rotr 13 a XOR rotr 22 a;
          maj = (a AND b) XOR (a AND c) XOR (b AND c);
          t2 = S0 + maj
      in [t1 + t2, a, b, c, d + t1, e, f, g])"
| "sha256_round st _ = st"

definition sha256_block :: "32 word list \<Rightarrow> byte list \<Rightarrow> 32 word list" where
  "sha256_block st block =
     map2 (+) st (foldl sha256_round st (zip sha256_K (sha256_schedule block)))"

definition sha256 :: "byte list \<Rightarrow> byte list" where
  "sha256 msg =
     concat (map (\<lambda>w. be_bytes 4 (unat w))
       (foldl sha256_block sha256_init (chunks 64 (pad be_bytes msg))))"

definition sha256_hexdigest :: "byte list \<Rightarrow> string" where
  "sha256_hexdigest msg = hex (sha256 msg)"

section \<open>MD5 (\<open>hashlib.md5\<close>)\<close>

text \<open>The digest of RFC 1321: little-endian words, 64 steps per 512-bit block.\<close>

definition md5_T :: "32 word list" where
  "md5_T =
    [0xD76AA478, 0xE8C7B756, 0x242070DB, 0xC1BDCEEE, 0xF57C0FAF, 0x4787C62A,
     0xA8304613, 0xFD469501, 0x698098D8, 0x8B44F7AF, 0xFFFF5BB1, 0x895CD7BE,
     0x6B901122, 0xFD987193, 0xA679438E, 0x49B40821, 0xF61E2562, 0xC040B340,
     0x265E5A51, 0xE9B6C7AA, 0xD62F105D, 0x02441453, 0xD8A1E681, 0xE7D3FBC8,
     0x21E1CDE6, 0xC33707D6, 0xF4D50D87, 0x455A14ED, 0xA9E3E905, 0xFCEFA3F8,
     0x676F02D9, 0x8D2A4C8A, 0xFFFA3942, 0x8771F681, 0x6D9D6122, 0xFDE5380C,
     0xA4BEEA44, 0x4BDECFA9, 0xF6BB4B60, 0xBEBFBC70, 0x289B7EC6, 0xEAA127FA,
     0xD4EF3085, 0x04881D05, 0xD9D4D039, 0xE6DB99E5, 0x1FA27CF8, 0xC4AC5665,
     0xF4292244, 0x432AFF97, 0xAB9423A7, 0xFC93A039, 0x655B59C3, 0x8F0CCC92,
     0xFFEFF47D, 0x85845DD1, 0x6FA87E4F, 0xFE2CE6E0, 0xA3014314, 0x4E0811A1,
     0xF7537E82, 0xBD3AF235, 0x2AD7D2BB, 0xEB86D391]"

definition md5_shifts :: "nat list" where
  "md5_shifts =
    [7, 12, 17, 22, 7, 12, 17, 22, 7, 12, 17, 22, 7, 12, 17, 22,
     5, 9, 14, 20, 5, 9, 14, 20, 5, 9, 14, 20, 5, 9, 14, 20,
     4, 11, 16, 23, 4, 11, 16, 23, 4, 11, 16, 23, 4, 11, 16, 23,
     6, 10, 15, 21, 6, 10, 15, 21, 6, 10, 15, 21, 6, 10, 15, 21]"

definition md5_init :: "32 word list" where
  "md5_init = [0x67452301, 0xEFCDAB89, 0x98BADCFE, 0x10325476]"

definition le32 :: "byte list \<Rightarrow> 32 word" where
  "le32 bs = be32 (rev bs)"

fun md5_step :: "32 word list \<Rightarrow> 32 word list \<Rightarrow> nat \<Rightarrow> 32 word list" where
  "md5_step m [a, b, c, d] i =
     (let f = (if i < 16 then (b AND c) OR (NOT b AND d)
               else if i < 32 then (d AND b) OR (NOT d AND c)
               else if i < 48 then b XOR c XOR d
               else c XOR (b OR NOT d));
          g = (if i < 16 then i
               else if i < 32 then (5 * i + 1) mod 16
               else if i < 48 then (3 * i + 5) mod 16
               else (7 * i) mod 16)
      in [d, b + rotl (md5_shifts ! i) (a + f + md5_T ! i + m ! g), b, c])"
| "md5_step m st i = st"

definition md5_block :: "32 word list \<Rightarrow> byte list \<Rightarrow> 32 word list" where
  "md5_block st block =
     map2 (+) st (foldl (md5_step (map le32 (chunks 4 block))) st [0..<64])"

definition md5 :: "byte list \<Rightarrow> byte list" where
  "md5 msg =
     concat (map (\<lambda>w. le_bytes 4 (unat w))
       (foldl md5_block md5_init (chunks 64 (pad le_bytes msg))))"

definition md5_hexdigest :: "byte list \<Rightarrow> string" where
  "md5_hexdigest msg = hex (md5 msg)"

section \<open>Content hasher (\<open>models.py\<close>)\<close>

definition compute_content_hash :: "string \<Rightarrow> string \<Rightarrow> string" where
  "compute_content_hash summary memory_type =
     (let normalized = join '' '' (split (lower summary));
          content = memory_type @ '':'' @ normalized
      in take 16 (sha256_hexdigest (encode content)))"

text \<open>The normalisation in the words of the specification: lower-case, trim, and collapse
  every internal run of whitespace to one space. It is compared with the code's
  \<open>" ".join(summary.lower().split())\<close> below.\<close>

definition lstrip :: "string \<Rightarrow> string" where
  "lstrip s = dropWhile is_space s"

definition rstrip :: "string \<Rightarrow> string" where
  "rstrip s = rev (dropWhile is_space (rev s))"

definition strip :: "string \<Rightarrow> string" where
  "strip s = rstrip (lstrip s)"

function collapse_ws :: "string \<Rightarrow> string" where
  "collapse_ws [] = []"
| "collapse_ws (c # cs) =
     (if is_space c then CHR '' '' # collapse_ws (dropWhile is_space cs)
      else c # collapse_ws cs)"
  by pat_completeness auto
termination
  by (relation "measure length") (auto simp: length_dropWhile_le less_Suc_eq_le)

definition spec_normalize :: "string \<Rightarrow> string" where
  "spec_normalize s = collapse_ws (strip (lower s))"

text \<open>Two summaries that differ only in letter case or in whitespace: the least equivalence
  that may change the case of a character, exchange one whitespace character for another,
  lengthen a run of whitespace, and add whitespace at either end.\<close>

inductive same_text :: "string \<Rightarrow> string \<Rightarrow> bool" where
  same_refl: "same_text s s"
| same_sym: "same_text s t \<Longrightarrow> same_text t s"
| same_trans: "same_text s t \<Longrightarrow> same_text t u \<Longrightarrow> same_text s u"
| same_case: "lower_char c = lower_char d \<Longrightarrow> same_text (u @ c # v) (u @ d # v)"
| same_ws: "is_space a \<Longrightarrow> is_space b \<Longrightarrow> same_text (u @ a # v) (u @ b # v)"
| same_run: "is_space a \<Longrightarrow> is_space b \<Longrightarrow> same_text (u @ a # v) (u @ a # b # v)"
| same_lead: "is_space a \<Longrightarrow> same_text s (a # s)"
| same_trail: "is_space a \<Longrightarrow> same_text s (s @ [a])"

section \<open>JSON values and \<open>json.dumps(..., sort_keys=True)\<close>\<close>

text \<open>The values a tool input mapping holds. A dictionary is the list of its items in
  insertion order; a Python dictionary never has two items with one key
  (\<open>json_wf\<close>). Floating-point leaves and objects that \<open>json.dumps\<close> rejects are outside
  the model.\<close>

datatype json =
    JNull
  | JBool bool
  | JInt int
  | JStr string
  | JList "json list"
  | JDict "(string \<times> json) list"

fun json_wf :: "json \<Rightarrow> bool" where
  "json_wf (JList xs) = list_all json_wf xs"
| "json_wf (JDict kvs) = (distinct (map fst kvs) \<and> list_all (\<lambda>kv. json_wf (snd kv)) kvs)"
| "json_wf _ = True"

text \<open>\<open>str(n)\<close> for an integer.\<close>

function nat_str :: "nat \<Rightarrow> string" where
  "nat_str n =
     (if n < 10 then [''0123456789'' ! n]
      else nat_str (n div 10) @ [''0123456789'' ! (n mod 10)])"
  by pat_completeness auto
termination
  by (relation "measure id") auto

declare nat_str.simps [simp del]

definition int_str :: "int \<Rightarrow> string" where
  "int_str i = (if i < 0 then ''-'' @ nat_str (nat (- i)) else nat_str (nat i))"

text \<open>A string literal of \<open>json.dumps\<close> with \<open>ensure_ascii\<close>: quote, backslash and
  everything outside the printable ASCII range are escaped.\<close>

definition json_escape_char :: "char \<Rightarrow> string" where
  "json_escape_char c =
     (let n = (of_char c :: nat)
      in if n = 34 then [CHR 0x5C, CHR 0x22]
         else if n = 92 then [CHR 0x5C, CHR 0x5C]
         else if n = 10 then [CHR 0x5C, CHR ''n'']
         else if n = 13 then [CHR 0x5C, CHR ''r'']
         else if n = 9 then [CHR 0x5C, CHR ''t'']
         else if n = 8 then [CHR 0x5C, CHR ''b'']
         else if n = 12 then [CHR 0x5C, CHR ''f'']
         else if n < 32 \<or> 126 < n
           then [CHR 0x5C, CHR ''u'', CHR ''0'', CHR ''0'', hex_digit (n div 16), hex_digit n]
         else [c])"

definition json_str :: "string \<Rightarrow> string" where
  "json_str s = [CHR 0x22] @ concat (map json_escape_char s) @ [CHR 0x22]"

text \<open>The items are sorted by key, then written with the separators \<open>", "\<close> and
  \<open>": "\<close>.\<close>

function json_dumps :: "json \<Rightarrow> string" where
  "json_dumps JNull = ''null''"
| "json_dumps (JBool b) = (if b then ''true'' else ''false'')"
| "json_dumps (JInt i) = int_str i"
| "json_dumps (JStr s) = json_str s"
| "json_dumps (JList xs) = ''['' @ join '', '' (map json_dumps xs) @ '']''"
| "json_dumps (JDict kvs) =
     ''{'' @ join '', '' (map (\<lambda>kv. json_str (fst kv) @ '': '' @ json_dumps (snd kv))
                             (sort_key fst kvs)) @ ''}''"
  by pat_completeness auto
termination
proof (relation "measure size")
  show "wf (measure size)" by simp
next
  fix xs :: "json list" and x
  assume "x \<in> set xs"
  then show "(x, JList xs) \<in> measure size"
    by (induction xs) auto
next
  fix kvs :: "(string \<times> json) list" and kv
  assume "kv \<in> set (sort_key fst kvs)"
  then have "kv \<in> set kvs" by simp
  then show "(snd kv, JDict kvs) \<in> measure size"
    by (induction kvs) auto
qed

text \<open>Equality of JSON values as Python compares dictionaries: the order of the items of a
  dictionary is irrelevant, at every depth.\<close>

inductive same_mapping :: "json \<Rightarrow> json \<Rightarrow> bool" where
  sm_refl: "same_mapping v v"
| sm_list: "list_all2 same_mapping xs ys \<Longrightarrow> same_mapping (JList xs) (JList ys)"
| sm_dict: "list_all2 (\<lambda>p q. fst p = fst q \<and> same_mapping (snd p) (snd q)) d1 d1' \<Longrightarrow>
            mset d1' = mset d2 \<Longrightarrow> same_mapping (JDict d1) (JDict d2)"

section \<open>Python values\<close>

text \<open>What the open \<open>extra\<close> mapping of a memory item and the dictionary form of a tool call
  hold. A \<open>float\<close> is idealised as the rational number it stands for (rounding error of
  the arithmetic is not modelled); a \<open>datetime\<close> is its timestamp.\<close>

datatype pyval =
    PNone
  | PBool bool
  | PInt int
  | PFloat rat
  | PStr string
  | PList "pyval list"
  | PDict "(string \<times> pyval) list"
  | PDatetime int


text \<open>Exceptions. Those the source raises carry its message; those the interpreter raises
  (a missing attribute, an operand of the wrong type, a missing key) are named by class.\<close>

datatype py_error =
    ValueError string
  | TypeError string
  | BuiltinAttributeError
  | BuiltinTypeError
  | BuiltinKeyError

text \<open>Truth value of an object, as \<open>not x\<close> and \<open>if x\<close> test it.\<close>

fun truthy :: "pyval \<Rightarrow> bool" where
  "truthy PNone = False"
| "truthy (PBool b) = b"
| "truthy (PInt i) = (i \<noteq> 0)"
| "truthy (PFloat r) = (r \<noteq> 0)"
| "truthy (PStr s) = (s \<noteq> [])"
| "truthy (PList xs) = (xs \<noteq> [])"
| "truthy (PDict d) = (d \<noteq> [])"
| "truthy (PDatetime t) = True"

text \<open>The number an object stands for in \<open>+\<close> and \<open>>=\<close> with a number; \<open>None\<close> where
  Python raises \<open>TypeError\<close>.\<close>

fun num_of :: "pyval \<Rightarrow> rat option" where
  "num_of (PBool b) = Some (if b then 1 else 0)"
| "num_of (PInt i) = Some (of_int i)"
| "num_of (PFloat r) = Some r"
| "num_of _ = None"


text \<open>\<open>xs[start:]\<close>.\<close>

definition slice_from :: "'a list \<Rightarrow> int \<Rightarrow> 'a list" where
  "slice_from xs start =
     (let n = int (length xs);
          s = (if start < 0 then max (start + n) 0 else min start n)
      in drop (nat s) xs)"

text \<open>\<open>round(x, n)\<close>: to \<open>n\<close> decimals, a tie to the even neighbour.\<close>

definition round_half_even :: "rat \<Rightarrow> int" where
  "round_half_even x =
     (let f = \<lfloor>x\<rfloor>; d = x - of_int f
      in if d < 1 / 2 then f else if 1 / 2 < d then f + 1 else if even f then f else f + 1)"

definition py_round :: "rat \<Rightarrow> nat \<Rightarrow> rat" where
  "py_round x n = of_int (round_half_even (x * 10 ^ n)) / 10 ^ n"

section \<open>Records (\<open>models.py\<close>)\<close>

datatype tool_input = InStr string | InDict "(string \<times> json) list"

record ToolCallResult =
  tool_name :: string
  input :: tool_input
  "output" :: string
  success :: bool
  time_cost :: rat
  token_cost :: int
  score :: rat
  call_hash :: string
  created_at :: int

text \<open>The string that \<open>generate_hash\<close> digests (its local \<open>combined\<close>).\<close>

definition input_str :: "tool_input \<Rightarrow> string" where
  "input_str i = (case i of InDict d \<Rightarrow> json_dumps (JDict d) | InStr s \<Rightarrow> s)"

definition combined :: "ToolCallResult \<Rightarrow> string" where
  "combined r = tool_name r @ ''|'' @ input_str (input r) @ ''|'' @ output r"

definition generate_hash :: "ToolCallResult \<Rightarrow> string" where
  "generate_hash r = md5_hexdigest (encode (combined r))"

definition ensure_hash :: "ToolCallResult \<Rightarrow> ToolCallResult" where
  "ensure_hash r = (if call_hash r = [] then r\<lparr>call_hash := generate_hash r\<rparr> else r)"


text \<open>\<open>MemoryItem\<close> with the three fields of \<open>BaseRecord\<close> first (\<open>id\<close> is written
  \<open>record_id\<close>, and the two timestamps carry the prefix too, since \<open>ToolCallResult\<close> has a
  \<open>created_at\<close> of its own). \<open>extra\<close> is \<open>None\<close> when the attribute has been set to
  \<open>None\<close>, which the accessors provide for.\<close>

record MemoryItem =
  record_id :: string
  record_created_at :: int
  record_updated_at :: int
  resource_id :: "string option"
  memory_type :: string
  summary :: string
  embedding :: "rat list option"
  happened_at :: "int option"
  extra :: "(string \<times> pyval) list option"

section \<open>Tool-call ledger (\<open>tool.py\<close>)\<close>

definition extra_or_empty :: "MemoryItem \<Rightarrow> (string \<times> pyval) list" where
  "extra_or_empty item = (case extra item of None \<Rightarrow> [] | Some d \<Rightarrow> d)"

definition get_tool_calls :: "MemoryItem \<Rightarrow> pyval" where
  "get_tool_calls item =
     (case map_of (extra_or_empty item) ''tool_calls'' of None \<Rightarrow> PList [] | Some v \<Rightarrow> v)"



section \<open>Tool statistics (\<open>tool.py\<close>)\<close>

record stats =
  total_calls :: nat
  recent_calls_analyzed :: nat
  avg_time_cost :: rat
  success_rate :: rat
  avg_score :: rat
  avg_token_cost :: rat

text \<open>\<open>c.get(key, default)\<close>: only a dictionary has \<open>get\<close>.\<close>

fun entry_get :: "pyval \<Rightarrow> string \<Rightarrow> pyval \<Rightarrow> py_error + pyval" where
  "entry_get (PDict d) k dflt = Inr (case map_of d k of None \<Rightarrow> dflt | Some v \<Rightarrow> v)"
| "entry_get _ k dflt = Inl BuiltinAttributeError"

text \<open>\<open>sum(c.get(key, default) for c in calls)\<close>, from the accumulator \<open>acc\<close>.\<close>

fun sum_field :: "string \<Rightarrow> pyval \<Rightarrow> rat \<Rightarrow> pyval list \<Rightarrow> py_error + rat" where
  "sum_field k dflt acc [] = Inr acc"
| "sum_field k dflt acc (c # cs) =
     (case entry_get c k dflt of
        Inl e \<Rightarrow> Inl e
      | Inr v \<Rightarrow>
          (case num_of v of
             None \<Rightarrow> Inl BuiltinTypeError
           | Some x \<Rightarrow> sum_field k dflt (acc + x) cs))"

text \<open>\<open>sum(1 for c in calls if c.get("success", True))\<close>.\<close>

fun count_successful :: "nat \<Rightarrow> pyval list \<Rightarrow> py_error + nat" where
  "count_successful acc [] = Inr acc"
| "count_successful acc (c # cs) =
     (case entry_get c ''success'' (PBool True) of
        Inl e \<Rightarrow> Inl e
      | Inr v \<Rightarrow> count_successful (if truthy v then acc + 1 else acc) cs)"

text \<open>\<open>[c for c in calls if c.get("token_cost", -1) >= 0]\<close>.\<close>

fun valid_token_calls :: "pyval list \<Rightarrow> py_error + pyval list" where
  "valid_token_calls [] = Inr []"
| "valid_token_calls (c # cs) =
     (case entry_get c ''token_cost'' (PInt (- 1)) of
        Inl e \<Rightarrow> Inl e
      | Inr v \<Rightarrow>
          (case num_of v of
             None \<Rightarrow> Inl BuiltinTypeError
           | Some x \<Rightarrow>
               (case valid_token_calls cs of
                  Inl e \<Rightarrow> Inl e
                | Inr vs \<Rightarrow> Inr (if 0 \<le> x then c # vs else vs))))"

text \<open>The body of \<open>get_tool_statistics\<close> after the window \<open>recent_calls\<close> has been cut,
  statement by statement.\<close>

definition window_stats :: "nat \<Rightarrow> pyval list \<Rightarrow> py_error + stats" where
  "window_stats total_len recent_calls =
     (let recent_count = length recent_calls
      in case sum_field ''time_cost'' (PFloat 0) 0 recent_calls of
           Inl e \<Rightarrow> Inl e
         | Inr total_time \<Rightarrow>
      (let avg_time = (if recent_count > 0 then total_time / of_nat recent_count else 0)
       in case count_successful 0 recent_calls of
            Inl e \<Rightarrow> Inl e
          | Inr successful \<Rightarrow>
      (let rate = (if recent_count > 0 then of_nat successful / of_nat recent_count else 0)
       in case sum_field ''score'' (PFloat 0) 0 recent_calls of
            Inl e \<Rightarrow> Inl e
          | Inr total_score \<Rightarrow>
      (let avg_sc = (if recent_count > 0 then total_score / of_nat recent_count else 0)
       in case valid_token_calls recent_calls of
            Inl e \<Rightarrow> Inl e
          | Inr valid \<Rightarrow>
      (case sum_field ''token_cost'' (PInt 0) 0 valid of
            Inl e \<Rightarrow> Inl e
          | Inr token_sum \<Rightarrow>
      (let avg_tok = (if valid \<noteq> [] then token_sum / of_nat (length valid) else 0)
       in Inr \<lparr>total_calls = total_len,
               recent_calls_analyzed = recent_count,
               avg_time_cost = py_round avg_time 3,
               success_rate = py_round rate 4,
               avg_score = py_round avg_sc 3,
               avg_token_cost = py_round avg_tok 2\<rparr>))))))"

definition zero_stats :: stats where
  "zero_stats =
     \<lparr>total_calls = 0, recent_calls_analyzed = 0, avg_time_cost = 0, success_rate = 0,
      avg_score = 0, avg_token_cost = 0\<rparr>"

text \<open>A list is sliced and iterated; a string too, giving one-character strings; a
  dictionary has no key that is a slice; nothing else can be subscripted.\<close>

definition get_tool_statistics :: "MemoryItem \<Rightarrow> int \<Rightarrow> py_error + stats" where
  "get_tool_statistics item recent_n =
     (let tool_calls = get_tool_calls item
      in if \<not> truthy tool_calls then Inr zero_stats
         else case tool_calls of
                PList calls \<Rightarrow> window_stats (length calls) (slice_from calls (- recent_n))
              | PStr s \<Rightarrow>
                  window_stats (length s) (map (\<lambda>c. PStr [c]) (slice_from s (- recent_n)))
              | PDict d \<Rightarrow> Inl BuiltinKeyError
              | _ \<Rightarrow> Inl BuiltinTypeError)"

section \<open>Scope composer (\<open>models.py\<close>)\<close>

text \<open>A pydantic model class: its name, its bases, the fields it declares itself, and the
  \<open>extra\<close> entry of its own \<open>model_config\<close>, if it has one. \<open>model_fields\<close> holds the
  fields of the bases, the last base first, then the class's own.\<close>

datatype extra_mode = Allow | Ignore | Forbid

datatype model =
  Model (model_name: string) (bases: "model list") (own_fields: "string list")
        (own_extra: "extra_mode option")

text \<open>The keys of a dictionary filled from a list of names: each name where it first
  occurs.\<close>

definition dict_keys :: "'a list \<Rightarrow> 'a list" where
  "dict_keys xs = rev (remdups (rev xs))"

fun model_fields :: "model \<Rightarrow> string list" where
  "model_fields (Model n bs own cfg) = dict_keys (concat (map model_fields (rev bs)) @ own)"

text \<open>The \<open>extra\<close> mode in force: the class's own, else that of the last base that has
  one, else pydantic's default \<open>ignore\<close>.\<close>

fun inherited_extra :: "model \<Rightarrow> extra_mode option" where
  "inherited_extra (Model n bs own cfg) =
     (case cfg of
        Some m \<Rightarrow> Some m
      | None \<Rightarrow> fold (\<lambda>b acc. case inherited_extra b of Some m \<Rightarrow> Some m | None \<Rightarrow> acc) bs None)"

definition model_extra :: "model \<Rightarrow> extra_mode" where
  "model_extra m = (case inherited_extra m of Some e \<Rightarrow> e | None \<Rightarrow> Ignore)"

text \<open>An attribute passed to the constructor is kept on the instance when it is a declared
  field or the model allows extra attributes.\<close>

definition accepts_attribute :: "model \<Rightarrow> string \<Rightarrow> bool" where
  "accepts_attribute m a = (a \<in> set (model_fields m) \<or> model_extra m = Allow)"

definition BaseModel :: model where
  "BaseModel = Model ''BaseModel'' [] [] None"

definition BaseRecord :: model where
  "BaseRecord = Model ''BaseRecord'' [BaseModel] [''id'', ''created_at'', ''updated_at''] None"

definition Resource :: model where
  "Resource = Model ''Resource'' [BaseRecord]
     [''url'', ''modality'', ''local_path'', ''caption'', ''embedding''] None"

text \<open>\<open>repr\<close> of a list of field names. A field name is an identifier, which \<open>repr\<close>
  writes unchanged between single quotes.\<close>

definition repr_names :: "string list \<Rightarrow> string" where
  "repr_names xs = ''['' @ join '', '' (map (\<lambda>x. [CHR 0x27] @ x @ [CHR 0x27]) xs) @ '']''"

definition merge_scope_model :: "model \<Rightarrow> model \<Rightarrow> string \<Rightarrow> py_error + model" where
  "merge_scope_model user_model core_model name_suffix =
     (let overlap = set (model_fields user_model) \<inter> set (model_fields core_model)
      in if overlap \<noteq> {}
         then Inl (TypeError (''Scope fields conflict with core model fields: ''
                     @ repr_names (sorted_list_of_set overlap)))
         else Inr (Model (model_name user_model @ model_name core_model @ name_suffix)
                     [user_model, core_model] [] (Some Allow)))"

section \<open>Data of the test suite\<close>

text \<open>The tool call and the memory items that \<open>tests/test_tool_memory.py\<close> builds; timestamps
  and identifiers, which the constructors draw from the clock and from \<open>uuid4\<close>, are fixed
  here.\<close>

definition calculator_call :: ToolCallResult where
  "calculator_call =
     \<lparr>tool_name = ''calculator'', input = InDict [(''a'', JInt 1), (''b'', JInt 2)],
      output = ''3'', success = True, time_cost = 1 / 10, token_cost = - 1, score = 1,
      call_hash = '''', created_at = 0\<rparr>"

definition new_item :: "string \<Rightarrow> string \<Rightarrow> MemoryItem" where
  "new_item ty text =
     \<lparr>record_id = ''00000000-0000-4000-8000-000000000000'', record_created_at = 0,
      record_updated_at = 0, resource_id = None, memory_type = ty, summary = text,
      embedding = None, happened_at = None, extra = Some []\<rparr>"

definition call_entry :: "string \<Rightarrow> bool \<Rightarrow> rat \<Rightarrow> rat \<Rightarrow> (string \<times> pyval) list" where
  "call_entry i ok t sc =
     [(''tool_name'', PStr ''t''), (''input'', PStr i), (''output'', PStr i),
      (''success'', PBool ok), (''time_cost'', PFloat t), (''score'', PFloat sc)]"

definition recent_item :: MemoryItem where
  "recent_item = (new_item ''tool'' ''tool with many calls'')
     \<lparr>extra := Some [(''tool_calls'', PList
        [PDict (call_entry ''1'' False 1 0),
         PDict (call_entry ''2'' True (1 / 10) 1),
         PDict (call_entry ''3'' True (1 / 10) 1)])]\<rparr>"

definition token_item :: "int list \<Rightarrow> MemoryItem" where
  "token_item costs = (new_item ''tool'' ''calculator tool'')
     \<lparr>extra := Some [(''tool_calls'', PList
        (map (\<lambda>k. PDict (call_entry ''1'' True (1 / 10) 1 @ [(''token_cost'', PInt k)])) costs))]\<rparr>"

section \<open>Tool-call records in the words of the specification\<close>

text \<open>An entry of the ledger is a tool-call record: a dictionary in which \<open>time_cost\<close>,
  \<open>score\<close> and \<open>token_cost\<close>, where present, are numbers.\<close>

definition field_ok :: "(string \<times> pyval) list \<Rightarrow> string \<Rightarrow> bool" where
  "field_ok d k = (case map_of d k of None \<Rightarrow> True | Some v \<Rightarrow> num_of v \<noteq> None)"

fun entry_ok :: "pyval \<Rightarrow> bool" where
  "entry_ok (PDict d) = (field_ok d ''time_cost'' \<and> field_ok d ''score'' \<and> field_ok d ''token_cost'')"
| "entry_ok _ = False"

text \<open>The number in field \<open>k\<close> of a record, \<open>dflt\<close> when the field is missing.\<close>

definition field_num :: "string \<Rightarrow> rat \<Rightarrow> pyval \<Rightarrow> rat" where
  "field_num k dflt c =
     (case c of
        PDict d \<Rightarrow>
          (case map_of d k of
             None \<Rightarrow> dflt
           | Some v \<Rightarrow> (case num_of v of None \<Rightarrow> dflt | Some x \<Rightarrow> x))
      | _ \<Rightarrow> dflt)"

text \<open>Whether a record counts as a success: a missing \<open>success\<close> field does.\<close>

definition succeeded :: "pyval \<Rightarrow> bool" where
  "succeeded c =
     (case c of
        PDict d \<Rightarrow> (case map_of d ''success'' of None \<Rightarrow> True | Some v \<Rightarrow> truthy v)
      | _ \<Rightarrow> False)"

text \<open>The mean of a list of numbers, 0 for the empty list.\<close>

definition mean :: "rat list \<Rightarrow> rat" where
  "mean xs = (if xs = [] then 0 else sum_list xs / of_nat (length xs))"

text \<open>The last \<open>n\<close> elements of a list, in order (all of them when there are fewer).\<close>

definition last_n :: "nat \<Rightarrow> 'a list \<Rightarrow> 'a list" where
  "last_n n xs = drop (length xs - n) xs"

section \<open>Hash lengths\<close>

lemma length_hex: "length (hex bs) = 2 * length bs"
  by (induction bs) (simp_all add: hex_def hex_byte_def)

lemma is_hex_char_digit: "is_hex_char (hex_digit n)"
  unfolding is_hex_char_def hex_digit_def by (rule nth_mem) simp

lemma is_hex_hex: "is_hex (hex bs)"
  by (induction bs) (simp_all add: hex_def hex_byte_def is_hex_def is_hex_char_digit)

lemma is_hex_take: "is_hex s \<Longrightarrow> is_hex (take n s)"
  unfolding is_hex_def list_all_iff by (auto dest: in_set_takeD)

lemma length_foldl_inv:
  "(\<And>s x. length s = n \<Longrightarrow> length (f s x) = n) \<Longrightarrow> length st = n
   \<Longrightarrow> length (foldl f st xs) = n"
  by (induction xs arbitrary: st) simp_all

lemma length_concat_const:
  "(\<And>x. x \<in> set xs \<Longrightarrow> length (f x) = k) \<Longrightarrow> length (concat (map f xs)) = k * length xs"
  by (induction xs) simp_all

lemma length_sha256_round: "length st = 8 \<Longrightarrow> length (sha256_round st kw) = 8"
proof -
  assume "length st = 8"
  then obtain a b c d e f g h where "st = [a, b, c, d, e, f, g, h]"
    by (auto simp: length_Suc_conv eval_nat_numeral)
  then show ?thesis by (cases kw) (simp add: Let_def)
qed

lemma length_sha256_block: "length st = 8 \<Longrightarrow> length (sha256_block st block) = 8"
  unfolding sha256_block_def
  by (simp add: length_foldl_inv[where n=8] length_sha256_round)

lemma length_sha256: "length (sha256 msg) = 32"
proof -
  have "length (foldl sha256_block sha256_init (chunks 64 (pad be_bytes msg))) = 8"
    by (rule length_foldl_inv[where n=8]) (simp_all add: length_sha256_block sha256_init_def)
  then show ?thesis
    unfolding sha256_def by (simp add: length_concat_const[where k=4] be_bytes_def)
qed

lemma length_md5_step: "length st = 4 \<Longrightarrow> length (md5_step m st i) = 4"
proof -
  assume "length st = 4"
  then obtain a b c d where "st = [a, b, c, d]"
    by (auto simp: length_Suc_conv eval_nat_numeral)
  then show ?thesis by (simp add: Let_def)
qed

lemma length_md5_block: "length st = 4 \<Longrightarrow> length (md5_block st block) = 4"
  unfolding md5_block_def
  by (simp add: length_foldl_inv[where n=4] length_md5_step)

lemma length_md5: "length (md5 msg) = 16"
proof -
  have "length (foldl md5_block md5_init (chunks 64 (pad le_bytes msg))) = 4"
    by (rule length_foldl_inv[where n=4]) (simp_all add: length_md5_block md5_init_def)
  then show ?thesis
    unfolding md5_def by (simp add: length_concat_const[where k=4] le_bytes_def)
qed

lemma length_sha256_hexdigest: "length (sha256_hexdigest msg) = 64"
  by (simp add: sha256_hexdigest_def length_hex length_sha256)

lemma length_md5_hexdigest: "length (md5_hexdigest msg) = 32"
  by (simp add: md5_hexdigest_def length_hex length_md5)

section \<open>Normalisation of summaries\<close>

lemma is_space_lower_char: "is_space (lower_char c) = is_space c"
  by (auto simp: is_space_def lower_char_def Let_def)

lemma split_from_word:
  "cur \<noteq> [] \<Longrightarrow> split_from cur s =
     (cur @ takeWhile (\<lambda>c. \<not> is_space c) s) # split_from [] (dropWhile (\<lambda>c. \<not> is_space c) s)"
  by (induction s arbitrary: cur) auto

lemma split_from_Cons:
  "\<not> is_space c \<Longrightarrow> split_from [] (c # s) =
     (c # takeWhile (\<lambda>c. \<not> is_space c) s) # split_from [] (dropWhile (\<lambda>c. \<not> is_space c) s)"
  by (simp add: split_from_word)

lemma rstrip_Cons:
  "rstrip (c # s) = (if list_all is_space (c # s) then [] else c # rstrip s)"
  unfolding rstrip_def
  by (auto simp: dropWhile_append list_all_iff dropWhile_eq_Nil_conv)

lemma rstrip_all: "list_all is_space s \<Longrightarrow> rstrip s = []"
  unfolding rstrip_def by (auto simp: list_all_iff dropWhile_eq_Nil_conv)

lemma split_all: "list_all is_space s \<Longrightarrow> split_from [] s = []"
  by (induction s) auto

lemma split_nonempty: "\<not> list_all is_space s \<Longrightarrow> split_from [] s \<noteq> []"
  by (induction s) (auto simp: split_from_word)

lemma join_Cons: "ws \<noteq> [] \<Longrightarrow> join sep (w # ws) = w @ sep @ join sep ws"
  by (cases ws) auto

lemma rstrip_dropWhile: "rstrip (dropWhile is_space s) = dropWhile is_space (rstrip s)"
  by (induction s) (auto simp: rstrip_Cons rstrip_all list_all_iff dest: set_dropWhileD)

lemma collapse_word_more:
  "\<forall>x\<in>set w. \<not> is_space x \<Longrightarrow> \<not> list_all is_space r
   \<Longrightarrow> collapse_ws (rstrip (w @ r)) = w @ collapse_ws (rstrip r)"
  by (induction w) (auto simp: rstrip_Cons)

lemma collapse_word_last:
  "\<forall>x\<in>set w. \<not> is_space x \<Longrightarrow> list_all is_space r \<Longrightarrow> collapse_ws (rstrip (w @ r)) = w"
  by (induction w) (auto simp: rstrip_Cons rstrip_all)

lemma join_split_collapse:
  "join '' '' (split_from [] s) = collapse_ws (rstrip (dropWhile is_space s))"
proof (induction s rule: length_induct)
  case (1 s)
  show ?case
  proof (cases s)
    case Nil
    then show ?thesis by (simp add: rstrip_def)
  next
    case (Cons c cs)
    show ?thesis
    proof (cases "is_space c")
      case True
      have "length cs < length s" using Cons by simp
      with 1 have "join '' '' (split_from [] cs) = collapse_ws (rstrip (dropWhile is_space cs))"
        by blast
      with True Cons show ?thesis by simp
    next
      case False
      let ?w = "takeWhile (\<lambda>c. \<not> is_space c) cs"
      let ?r = "dropWhile (\<lambda>c. \<not> is_space c) cs"
      have len: "length ?r < length s" using Cons
        by (simp add: length_dropWhile_le less_Suc_eq_le)
      have ih: "join '' '' (split_from [] ?r) = collapse_ws (rstrip (dropWhile is_space ?r))"
        using 1 len by blast
      have sp: "split_from [] s = (c # ?w) # split_from [] ?r"
        unfolding Cons by (rule split_from_Cons[OF False])
      have cs: "cs = ?w @ ?r" by simp
      have nw: "\<forall>x\<in>set ?w. \<not> is_space x" by (auto dest: set_takeWhileD)
      show ?thesis
      proof (cases "list_all is_space ?r")
        case True
        have "collapse_ws (rstrip (c # cs)) = c # ?w"
          using collapse_word_last[of "c # ?w" ?r] nw False True cs
          by (metis append_Cons set_ConsD)
        moreover have "split_from [] ?r = []" using True by (rule split_all)
        ultimately show ?thesis using sp False Cons by simp
      next
        case nall: False
        then obtain d ds where r: "?r = d # ds" by (cases ?r) auto
        have d: "is_space d" using r by (metis hd_dropWhile list.sel(1) list.distinct(1))
        have "collapse_ws (rstrip (c # cs)) = (c # ?w) @ collapse_ws (rstrip ?r)"
          using collapse_word_more[of "c # ?w" ?r] nw False nall cs
          by (metis append_Cons set_ConsD)
        also have "collapse_ws (rstrip ?r)
                   = CHR '' '' # collapse_ws (dropWhile is_space (rstrip ds))"
          using r d nall by (simp add: rstrip_Cons)
        also have "dropWhile is_space (rstrip ds) = rstrip (dropWhile is_space ?r)"
          using r d by (simp add: rstrip_dropWhile)
        finally have "collapse_ws (rstrip (c # cs))
                      = (c # ?w) @ '' '' @ join '' '' (split_from [] ?r)"
          using ih by simp
        moreover have "split_from [] ?r \<noteq> []" using nall by (rule split_nonempty)
        ultimately show ?thesis using sp False Cons by (simp add: join_Cons)
      qed
    qed
  qed
qed

lemma normalized_eq_spec: "join '' '' (split (lower s)) = spec_normalize s"
  by (simp add: split_def spec_normalize_def strip_def lstrip_def join_split_collapse)

lemma split_from_append_space:
  "is_space a \<Longrightarrow> split_from cur (u @ a # v) = split_from cur u @ split_from [] v"
  by (induction u arbitrary: cur) auto

lemma split_from_trailing_space:
  "is_space a \<Longrightarrow> split_from cur (u @ [a]) = split_from cur u"
  using split_from_append_space[of a cur u "[]"] by simp

lemma same_text_split: "same_text s t \<Longrightarrow> split (lower s) = split (lower t)"
proof (induction rule: same_text.induct)
  case (same_case c d u v)
  then show ?case by (simp add: lower_def)
next
  case (same_ws a b u v)
  then show ?case
    by (simp add: lower_def split_def split_from_append_space is_space_lower_char)
next
  case (same_run a b u v)
  then have "split_from [] (lower_char b # lower v) = split_from [] (lower v)"
    by (simp add: is_space_lower_char)
  with same_run show ?case
    by (simp add: lower_def split_def split_from_append_space is_space_lower_char)
next
  case (same_lead a s)
  then show ?case by (simp add: lower_def split_def is_space_lower_char)
next
  case (same_trail a s)
  then show ?case
    by (simp add: lower_def split_def split_from_trailing_space is_space_lower_char)
qed simp_all

text \<open>
  C5. \<open>compute_content_hash(summary, memory_type)\<close> is the first 16 hexadecimal characters
  of the SHA-256 digest of the UTF-8 bytes of \<open>"{memory_type}:{normalized}"\<close>, where
  \<open>normalized\<close> is the summary lower-cased, trimmed and with every internal run of
  whitespace collapsed to one space. The result has exactly 16 characters, all hexadecimal
  digits, and two summaries that differ only in letter case or whitespace have the same
  hash for the same memory type.
\<close>

theorem compute_content_hash_spec:
  "compute_content_hash s ty
     = take 16 (sha256_hexdigest (encode (ty @ '':'' @ spec_normalize s)))
   \<and> length (compute_content_hash s ty) = 16
   \<and> is_hex (compute_content_hash s ty)
   \<and> (same_text s s'
        \<longrightarrow> compute_content_hash s' ty
            = compute_content_hash s ty)"
proof -
  have eq: "compute_content_hash x ty
        = take 16 (sha256_hexdigest (encode (ty @ '':'' @ spec_normalize x)))" for x
    by (simp add: compute_content_hash_def Let_def normalized_eq_spec)
  have len: "length (compute_content_hash s ty) = 16"
    unfolding eq by (simp add: length_sha256_hexdigest)
  have hx: "is_hex (compute_content_hash s ty)"
    unfolding eq sha256_hexdigest_def by (intro is_hex_take is_hex_hex)
  have inv: "compute_content_hash s' ty = compute_content_hash s ty"
    if "same_text s s'"
    using same_text_split[OF that] by (simp add: compute_content_hash_def Let_def)
  from eq len hx inv show ?thesis by blast
qed

theorem compute_content_hash_spec_witness:
  "same_text ''I love coffee'' ''I  love   Coffee''
   \<and> compute_content_hash ''I  love   Coffee'' ''profile''
       = compute_content_hash ''I love coffee'' ''profile''
   \<and> length (compute_content_hash ''I love coffee'' ''profile'') = 16"
proof -
  have "same_text (''I love '' @ CHR ''c'' # ''offee'') (''I love '' @ CHR ''C'' # ''offee'')"
    by (rule same_case) code_simp
  then have s1: "same_text ''I love coffee'' ''I love Coffee''" by simp
  have "same_text (''I'' @ CHR '' '' # ''love Coffee'') (''I'' @ CHR '' '' # CHR '' '' # ''love Coffee'')"
    by (rule same_run) (simp_all add: is_space_def)
  then have s2: "same_text ''I love Coffee'' ''I  love Coffee''" by simp
  have "same_text (''I  love'' @ CHR '' '' # ''Coffee'') (''I  love'' @ CHR '' '' # CHR '' '' # ''Coffee'')"
    by (rule same_run) (simp_all add: is_space_def)
  then have s3: "same_text ''I  love Coffee'' ''I  love  Coffee''" by simp
  have "same_text (''I  love'' @ CHR '' '' # '' Coffee'') (''I  love'' @ CHR '' '' # CHR '' '' # '' Coffee'')"
    by (rule same_run) (simp_all add: is_space_def)
  then have s4: "same_text ''I  love  Coffee'' ''I  love   Coffee''" by simp
  have h: "same_text ''I love coffee'' ''I  love   Coffee''"
    using s1 s2 s3 s4 by (blast intro: same_trans)
  show ?thesis
    using h compute_content_hash_spec[of "''I love coffee''" "''profile''" "''I  love   Coffee''"]
    by blast
qed

section \<open>Serialisation of mappings\<close>

lemma filter_key_distinct:
  "distinct (map fst xs) \<Longrightarrow> k \<in> set xs \<Longrightarrow> filter (\<lambda>x. fst k = fst x) xs = [k]"
proof (induction xs)
  case Nil
  then show ?case by simp
next
  case (Cons x xs)
  show ?case
  proof (cases "k = x")
    case True
    have "filter (\<lambda>y. fst x = fst y) xs = []"
      using Cons.prems(1) by (auto simp: filter_empty_conv image_iff)
    with True show ?thesis by simp
  next
    case False
    with Cons.prems have "k \<in> set xs" by simp
    moreover have "fst k \<noteq> fst x" using Cons.prems(1) \<open>k \<in> set xs\<close> by (auto simp: image_iff)
    ultimately show ?thesis using Cons by simp
  qed
qed

lemma distinct_keys_mset:
  "mset xs = mset ys \<Longrightarrow> distinct (map fst xs) = distinct (map fst ys)"
proof -
  assume "mset xs = mset ys"
  then have "mset (map fst xs) = mset (map fst ys)" by (metis mset_map)
  then show ?thesis by (rule mset_eq_imp_distinct_iff)
qed

lemma sort_key_fst_mset_eq:
  assumes "mset xs = mset ys" and "distinct (map fst xs)"
  shows "sort_key fst xs = sort_key fst ys"
proof (rule properties_for_sort_key)
  show "mset (sort_key fst ys) = mset xs" using assms(1) by simp
  show "sorted (map fst (sort_key fst ys))" by simp
  fix k assume k: "k \<in> set (sort_key fst ys)"
  have dy: "distinct (map fst ys)" using assms distinct_keys_mset by blast
  have "mset (sort_key fst ys) = mset ys" by simp
  then have ds: "distinct (map fst (sort_key fst ys))" using dy distinct_keys_mset by blast
  have "k \<in> set xs" using k assms(1) by (metis mset_eq_setD set_sort)
  then have "filter (\<lambda>x. fst k = fst x) xs = [k]" using assms(2) by (rule filter_key_distinct[rotated])
  moreover have "filter (\<lambda>x. fst k = fst x) (sort_key fst ys) = [k]"
    using ds k by (rule filter_key_distinct)
  ultimately show "filter (\<lambda>x. fst k = fst x) (sort_key fst ys) = filter (\<lambda>x. fst k = fst x) xs"
    by simp
qed

lemma list_all2_insort_key:
  assumes "list_all2 R xs ys" and "R x y" and "\<And>p q. R p q \<Longrightarrow> fst p = fst q"
  shows "list_all2 R (insort_key fst x xs) (insort_key fst y ys)"
  using assms(1)
proof (induction rule: list_all2_induct)
  case Nil
  then show ?case using assms(2) by simp
next
  case (Cons p ps q qs)
  have "fst p = fst q" "fst x = fst y" using Cons.hyps(1) assms(2,3) by blast+
  then show ?case using Cons assms(2) by simp
qed

lemma list_all2_sort_key:
  assumes "list_all2 R xs ys" and "\<And>p q. R p q \<Longrightarrow> fst p = fst q"
  shows "list_all2 R (sort_key fst xs) (sort_key fst ys)"
  using assms(1)
proof (induction rule: list_all2_induct)
  case Nil
  then show ?case by simp
next
  case (Cons p ps q qs)
  then show ?case using assms(2) by (simp add: list_all2_insort_key)
qed

lemma same_mapping_dumps:
  "same_mapping a b \<Longrightarrow> json_wf a \<Longrightarrow> json_wf b \<Longrightarrow> json_dumps a = json_dumps b"
proof (induction rule: same_mapping.induct)
  case (sm_refl v)
  show ?case by simp
next
  case (sm_list xs ys)
  have "list_all json_wf xs" "list_all json_wf ys" using sm_list.prems by simp_all
  with sm_list.IH have "map json_dumps xs = map json_dumps ys"
    by (induction rule: list_all2_induct) simp_all
  then show ?case by simp
next
  case (sm_dict d1 d1' d2)
  let ?R = "\<lambda>p q. fst p = fst q \<and> json_dumps (snd p) = json_dumps (snd q)"
  let ?render = "\<lambda>kv. json_str (fst kv) @ '': '' @ json_dumps (snd kv)"
  have wf1: "distinct (map fst d1)" "list_all (\<lambda>kv. json_wf (snd kv)) d1"
    using sm_dict.prems(1) by simp_all
  have wf2: "distinct (map fst d2)" "list_all (\<lambda>kv. json_wf (snd kv)) d2"
    using sm_dict.prems(2) by simp_all
  have "set d1' = set d2" using sm_dict.hyps by (rule mset_eq_setD)
  then have wf1': "list_all (\<lambda>kv. json_wf (snd kv)) d1'"
    using wf2(2) by (simp add: list_all_iff)
  have R: "list_all2 ?R d1 d1'"
    using sm_dict.IH wf1(2) wf1'
    by (induction rule: list_all2_induct) simp_all
  then have "list_all2 ?R (sort_key fst d1) (sort_key fst d1')"
    by (rule list_all2_sort_key) simp
  then have "map ?render (sort_key fst d1) = map ?render (sort_key fst d1')"
    by (induction rule: list_all2_induct) simp_all
  moreover have "map fst d1 = map fst d1'"
    using R by (induction rule: list_all2_induct) simp_all
  then have "distinct (map fst d1')" using wf1(1) by simp
  then have "sort_key fst d1' = sort_key fst d2"
    using sm_dict.hyps by (intro sort_key_fst_mset_eq)
  ultimately show ?case by simp
qed

text \<open>Two item lists with distinct keys that denote one mapping are related.\<close>

lemma map_of_eq_same_mapping:
  assumes "distinct (map fst d1)" and "distinct (map fst d2)" and "map_of d1 = map_of d2"
  shows "same_mapping (JDict d1) (JDict d2)"
proof -
  have "set d1 = set d2"
    using assms by (metis map_of_inject_set)
  moreover have "distinct d1" "distinct d2"
    using assms(1,2) by (auto simp: distinct_map)
  ultimately have "mset d1 = mset d2" by (simp add: set_eq_iff_mset_eq_distinct)
  moreover have "list_all2 (\<lambda>p q. fst p = fst q \<and> same_mapping (snd p) (snd q)) d1 d1"
    by (simp add: list_all2_same same_mapping.sm_refl)
  ultimately show ?thesis by (rule same_mapping.sm_dict[rotated])
qed

section \<open>Tool-call hasher\<close>

lemma length_generate_hash: "length (generate_hash r) = 32"
  by (simp add: generate_hash_def length_md5_hexdigest)

text \<open>
  C6. \<open>generate_hash()\<close> is the full MD5 hex digest, 32 hexadecimal characters, of the UTF-8
  bytes of \<open>"{tool_name}|{input_str}|{output}"\<close>, where \<open>input_str\<close> is the sorted-keys
  serialisation of a mapping input and the string itself otherwise. Two results whose
  mapping inputs are equal as mappings, whatever the insertion order of their keys, and
  that agree elsewhere have the same hash.
\<close>

theorem generate_hash_spec:
  "generate_hash r
     = md5_hexdigest (encode (tool_name r @ ''|''
         @ (case input r of InDict d \<Rightarrow> json_dumps (JDict d) | InStr s \<Rightarrow> s)
         @ ''|'' @ output r))
   \<and> length (generate_hash r) = 32
   \<and> is_hex (generate_hash r)
   \<and> (input r = InDict d1 \<and> json_wf (JDict d1) \<and> json_wf (JDict d2)
        \<and> same_mapping (JDict d1) (JDict d2)
       \<longrightarrow> generate_hash (r\<lparr>input := InDict d2\<rparr>) = generate_hash r)"
proof -
  have "json_dumps (JDict d2) = json_dumps (JDict d1)"
    if "json_wf (JDict d1)" "json_wf (JDict d2)" "same_mapping (JDict d1) (JDict d2)"
    using same_mapping_dumps[OF that(3) that(1) that(2)] by simp
  then have "generate_hash (r\<lparr>input := InDict d2\<rparr>) = generate_hash r"
    if "input r = InDict d1" "json_wf (JDict d1)" "json_wf (JDict d2)"
       "same_mapping (JDict d1) (JDict d2)"
    using that by (simp add: generate_hash_def combined_def input_str_def)
  moreover have "is_hex (generate_hash r)"
    by (simp add: generate_hash_def md5_hexdigest_def is_hex_hex)
  moreover have "generate_hash r
     = md5_hexdigest (encode (tool_name r @ ''|''
         @ (case input r of InDict d \<Rightarrow> json_dumps (JDict d) | InStr s \<Rightarrow> s)
         @ ''|'' @ output r))"
    by (simp add: generate_hash_def combined_def input_str_def)
  ultimately show ?thesis using length_generate_hash by blast
qed

theorem generate_hash_spec_witness:
  "input calculator_call = InDict [(''a'', JInt 1), (''b'', JInt 2)]
   \<and> json_wf (JDict [(''a'', JInt 1), (''b'', JInt 2)])
   \<and> json_wf (JDict [(''b'', JInt 2), (''a'', JInt 1)])
   \<and> same_mapping (JDict [(''a'', JInt 1), (''b'', JInt 2)])
                    (JDict [(''b'', JInt 2), (''a'', JInt 1)])
   \<and> generate_hash (calculator_call\<lparr>input := InDict [(''b'', JInt 2), (''a'', JInt 1)]\<rparr>)
       = generate_hash calculator_call
   \<and> length (generate_hash calculator_call) = 32"
proof -
  let ?d1 = "[(''a'', JInt 1), (''b'', JInt 2)]"
  let ?d2 = "[(''b'', JInt 2), (''a'', JInt 1)]"
  have i: "input calculator_call = InDict ?d1" by (simp add: calculator_call_def)
  have w1: "json_wf (JDict ?d1)" and w2: "json_wf (JDict ?d2)" by simp_all
  have "list_all2 (\<lambda>p q. fst p = fst q \<and> same_mapping (snd p) (snd q)) ?d1 ?d1"
    by (simp add: same_mapping.sm_refl)
  moreover have "mset ?d1 = mset ?d2" by simp
  ultimately have s: "same_mapping (JDict ?d1) (JDict ?d2)" by (rule same_mapping.sm_dict)
  show ?thesis
    using i w1 w2 s generate_hash_spec[of calculator_call ?d1 ?d2] by blast
qed

section \<open>Sensitivity of the tool-call hash\<close>

lemma json_dumps_calculator:
  \<open>json_dumps (JDict [(''a'', JInt 1), (''b'', JInt 2)]) = ''{"a": 1, "b": 2}''\<close>
  by code_simp

text \<open>
  C7, as stated, fails: replacing the mapping input \<open>{"a": 1, "b": 2}\<close> by the string
  \<open>'{"a": 1, "b": 2}'\<close> changes \<open>input\<close> and nothing else, and the hash stays the same.
\<close>

theorem generate_hash_input_change_counterexample:
  \<open>input (calculator_call\<lparr>input := InStr ''{"a": 1, "b": 2}''\<rparr>) \<noteq> input calculator_call
   \<and> tool_name (calculator_call\<lparr>input := InStr ''{"a": 1, "b": 2}''\<rparr>) = tool_name calculator_call
   \<and> output (calculator_call\<lparr>input := InStr ''{"a": 1, "b": 2}''\<rparr>) = output calculator_call
   \<and> generate_hash (calculator_call\<lparr>input := InStr ''{"a": 1, "b": 2}''\<rparr>)
       = generate_hash calculator_call\<close>
  by (simp add: calculator_call_def generate_hash_def combined_def input_str_def
        json_dumps_calculator del: json_dumps.simps)

text \<open>
  C7, amended. Two tool calls with the same \<open>tool_name\<close>, \<open>input\<close> and \<open>output\<close> have the
  same hash. The hash is the MD5 digest of the string \<open>tool_name|input_str|output\<close>, and that
  string changes when only \<open>tool_name\<close> is changed, when only \<open>output\<close> is changed, and when
  a string input is replaced by another string.
\<close>

theorem generate_hash_sensitivity:
  "(tool_name r1 = tool_name r2 \<and> input r1 = input r2 \<and> output r1 = output r2
      \<longrightarrow> generate_hash r1 = generate_hash r2)
   \<and> generate_hash r = md5_hexdigest (encode (combined r))
   \<and> (t \<noteq> tool_name r \<longrightarrow> combined (r\<lparr>tool_name := t\<rparr>) \<noteq> combined r)
   \<and> (out \<noteq> output r \<longrightarrow> combined (r\<lparr>output := out\<rparr>) \<noteq> combined r)
   \<and> (input r = InStr s \<and> s' \<noteq> s \<longrightarrow> combined (r\<lparr>input := InStr s'\<rparr>) \<noteq> combined r)"
proof -
  have "t @ x = tool_name r @ x \<Longrightarrow> t = tool_name r" for x by simp
  then have a: "t \<noteq> tool_name r \<Longrightarrow> combined (r\<lparr>tool_name := t\<rparr>) \<noteq> combined r"
    unfolding combined_def by (metis ToolCallResult.select_convs(1,2,3) ToolCallResult.surjective ToolCallResult.update_convs(1))
  show ?thesis
    using a by (auto simp: generate_hash_def combined_def input_str_def)
qed

theorem generate_hash_sensitivity_witness:
  "tool_name calculator_call = tool_name (calculator_call\<lparr>success := False\<rparr>)
   \<and> generate_hash calculator_call = generate_hash (calculator_call\<lparr>success := False\<rparr>)
   \<and> ''calc'' \<noteq> tool_name calculator_call
   \<and> combined (calculator_call\<lparr>tool_name := ''calc''\<rparr>) \<noteq> combined calculator_call
   \<and> ''5'' \<noteq> output calculator_call
   \<and> combined (calculator_call\<lparr>output := ''5''\<rparr>) \<noteq> combined calculator_call
   \<and> input (calculator_call\<lparr>input := InStr ''1+1''\<rparr>) = InStr ''1+1'' \<and> ''2+2'' \<noteq> ''1+1''
   \<and> combined (calculator_call\<lparr>input := InStr ''1+1'', input := InStr ''2+2''\<rparr>)
       \<noteq> combined (calculator_call\<lparr>input := InStr ''1+1''\<rparr>)"
proof -
  have h1: "tool_name calculator_call = tool_name (calculator_call\<lparr>success := False\<rparr>)
        \<and> input calculator_call = input (calculator_call\<lparr>success := False\<rparr>)
        \<and> output calculator_call = output (calculator_call\<lparr>success := False\<rparr>)" by simp
  have h2: "''calc'' \<noteq> tool_name calculator_call" by (simp add: calculator_call_def)
  have h3: "''5'' \<noteq> output calculator_call" by (simp add: calculator_call_def)
  have h4: "input (calculator_call\<lparr>input := InStr ''1+1''\<rparr>) = InStr ''1+1'' \<and> ''2+2'' \<noteq> ''1+1''"
    by simp
  show ?thesis
    using h1 h2 h3 h4
      generate_hash_sensitivity[of calculator_call "calculator_call\<lparr>success := False\<rparr>"
        calculator_call "''calc''" "''5''"]
      generate_hash_sensitivity[of calculator_call calculator_call
        "calculator_call\<lparr>input := InStr ''1+1''\<rparr>" "''calculator''" "''3''" "''1+1''" "''2+2''"]
    by simp
qed

section \<open>Idempotence of \<open>ensure_hash\<close>\<close>

text \<open>
  C9. \<open>ensure_hash()\<close> sets \<open>call_hash\<close> to \<open>generate_hash()\<close> when \<open>call_hash\<close> is empty and
  changes nothing when it is not; calling it twice leaves the tool call as calling it once
  does.
\<close>

theorem ensure_hash_idempotent:
  "(call_hash r = [] \<longrightarrow> ensure_hash r = r\<lparr>call_hash := generate_hash r\<rparr>)
   \<and> (call_hash r \<noteq> [] \<longrightarrow> ensure_hash r = r)
   \<and> call_hash (ensure_hash r) \<noteq> []
   \<and> ensure_hash (ensure_hash r) = ensure_hash r"
proof -
  have "generate_hash r \<noteq> []" using length_generate_hash[of r] by auto
  then show ?thesis by (simp add: ensure_hash_def)
qed

theorem ensure_hash_idempotent_witness:
  "call_hash calculator_call = []
   \<and> ensure_hash calculator_call = calculator_call\<lparr>call_hash := generate_hash calculator_call\<rparr>
   \<and> call_hash (calculator_call\<lparr>call_hash := ''abc''\<rparr>) \<noteq> []
   \<and> ensure_hash (calculator_call\<lparr>call_hash := ''abc''\<rparr>) = calculator_call\<lparr>call_hash := ''abc''\<rparr>
   \<and> ensure_hash (ensure_hash calculator_call) = ensure_hash calculator_call"
proof -
  have h1: "call_hash calculator_call = []" by (simp add: calculator_call_def)
  have h2: "call_hash (calculator_call\<lparr>call_hash := ''abc''\<rparr>) \<noteq> []" by simp
  show ?thesis
    using h1 h2 ensure_hash_idempotent[of calculator_call]
      ensure_hash_idempotent[of "calculator_call\<lparr>call_hash := ''abc''\<rparr>"]
    by blast
qed

section \<open>Tool-call ledger\<close>



text \<open>
  C8. \<open>get_tool_calls(item)\<close> returns what \<open>item.extra["tool_calls"]\<close> holds, and the empty
  sequence, without failing, when the key or the whole \<open>extra\<close> mapping is missing. For an
  item whose ledger is empty \<open>get_tool_statistics\<close> returns \<open>total_calls = 0\<close>,
  \<open>recent_calls_analyzed = 0\<close> and 0.0 for the four averages.
\<close>

theorem get_tool_calls_default:
  "(extra item = None \<longrightarrow> get_tool_calls item = PList [])
   \<and> (extra item = Some d \<and> map_of d ''tool_calls'' = None \<longrightarrow> get_tool_calls item = PList [])
   \<and> (extra item = Some d \<and> map_of d ''tool_calls'' = Some v \<longrightarrow> get_tool_calls item = v)
   \<and> (get_tool_calls item = PList [] \<longrightarrow>
        get_tool_statistics item recent_n =
          Inr \<lparr>total_calls = 0, recent_calls_analyzed = 0, avg_time_cost = 0,
               success_rate = 0, avg_score = 0, avg_token_cost = 0\<rparr>)"
  by (simp add: get_tool_calls_def extra_or_empty_def get_tool_statistics_def zero_stats_def)

theorem get_tool_calls_default_witness:
  "extra ((new_item ''tool'' ''empty tool memory'')\<lparr>extra := None\<rparr>) = None
   \<and> get_tool_calls ((new_item ''tool'' ''empty tool memory'')\<lparr>extra := None\<rparr>) = PList []
   \<and> extra (new_item ''tool'' ''empty tool memory'') = Some []
   \<and> map_of ([] :: (string \<times> pyval) list) ''tool_calls'' = None
   \<and> get_tool_calls (new_item ''tool'' ''empty tool memory'') = PList []
   \<and> get_tool_statistics (new_item ''tool'' ''empty tool memory'') 20 =
        Inr \<lparr>total_calls = 0, recent_calls_analyzed = 0, avg_time_cost = 0,
             success_rate = 0, avg_score = 0, avg_token_cost = 0\<rparr>
   \<and> extra ((new_item ''tool'' ''t'')\<lparr>extra := Some [(''tool_calls'', PList [PNone])]\<rparr>)
       = Some [(''tool_calls'', PList [PNone])]
   \<and> map_of [(''tool_calls'', PList [PNone])] ''tool_calls'' = Some (PList [PNone])
   \<and> get_tool_calls ((new_item ''tool'' ''t'')\<lparr>extra := Some [(''tool_calls'', PList [PNone])]\<rparr>)
       = PList [PNone]"
proof -
  let ?a = "(new_item ''tool'' ''empty tool memory'')\<lparr>extra := None\<rparr>"
  let ?b = "new_item ''tool'' ''empty tool memory''"
  let ?c = "(new_item ''tool'' ''t'')\<lparr>extra := Some [(''tool_calls'', PList [PNone])]\<rparr>"
  have a: "extra ?a = None" by simp
  have b: "extra ?b = Some [] \<and> map_of ([] :: (string \<times> pyval) list) ''tool_calls'' = None"
    by (simp add: new_item_def)
  have c: "extra ?c = Some [(''tool_calls'', PList [PNone])]
           \<and> map_of [(''tool_calls'', PList [PNone])] ''tool_calls'' = Some (PList [PNone])"
    by simp
  have ga: "get_tool_calls ?a = PList []"
    using a get_tool_calls_default[of ?a] by blast
  have gb: "get_tool_calls ?b = PList []"
    using b get_tool_calls_default[of ?b "[]"] by blast
  have gc: "get_tool_calls ?c = PList [PNone]"
    using c get_tool_calls_default[of ?c "[(''tool_calls'', PList [PNone])]" "PList [PNone]"]
    by blast
  have sb: "get_tool_statistics ?b 20 =
        Inr \<lparr>total_calls = 0, recent_calls_analyzed = 0, avg_time_cost = 0,
             success_rate = 0, avg_score = 0, avg_token_cost = 0\<rparr>"
    using gb get_tool_calls_default[of ?b _ _ 20] by blast
  show ?thesis using a b c ga gb gc sb by blast
qed





section \<open>Tool statistics\<close>

lemma slice_from_last_n: "1 \<le> n \<Longrightarrow> slice_from xs (- n) = last_n (nat n) xs"
  by (simp add: slice_from_def last_n_def Let_def nat_diff_distrib' max_def)

lemma length_last_n: "length (last_n n xs) = min n (length xs)"
  by (simp add: last_n_def)

lemma last_n_suffix: "xs = take (length xs - n) xs @ last_n n xs"
  by (simp add: last_n_def)

lemma entry_ok_slice: "list_all entry_ok xs \<Longrightarrow> list_all entry_ok (slice_from xs i)"
  by (auto simp: slice_from_def Let_def list_all_iff dest: in_set_dropD)

lemma entry_ok_cases:
  assumes "entry_ok c"
  obtains d where "c = PDict d" "field_ok d ''time_cost''" "field_ok d ''score''"
    "field_ok d ''token_cost''"
  using assms by (cases c) auto

lemma sum_field_ok:
  assumes "list_all entry_ok cs" and "k \<in> {''time_cost'', ''score'', ''token_cost''}"
    and "num_of dflt = Some d0"
  shows "sum_field k dflt acc cs = Inr (acc + sum_list (map (field_num k d0) cs))"
  using assms(1)
proof (induction cs arbitrary: acc)
  case Nil
  then show ?case by simp
next
  case (Cons c cs)
  then have "entry_ok c" by simp
  then obtain d where d: "c = PDict d" "field_ok d ''time_cost''" "field_ok d ''score''"
    "field_ok d ''token_cost''" by (rule entry_ok_cases)
  then have fk: "field_ok d k" using assms(2) by auto
  have "\<exists>x. num_of (case map_of d k of None \<Rightarrow> dflt | Some v \<Rightarrow> v) = Some x
            \<and> field_num k d0 c = x"
    using fk assms(3) d(1) by (auto simp: field_ok_def field_num_def split: option.splits)
  then obtain x where x: "num_of (case map_of d k of None \<Rightarrow> dflt | Some v \<Rightarrow> v) = Some x"
    "field_num k d0 c = x" by blast
  have "sum_field k dflt acc (c # cs) = sum_field k dflt (acc + x) cs"
    using d(1) x(1) by simp
  also have "\<dots> = Inr (acc + x + sum_list (map (field_num k d0) cs))"
    using Cons by simp
  finally show ?case using x(2) by (simp add: add.assoc)
qed

lemma count_successful_ok:
  "list_all entry_ok cs \<Longrightarrow> count_successful acc cs = Inr (acc + length (filter succeeded cs))"
proof (induction cs arbitrary: acc)
  case Nil
  then show ?case by simp
next
  case (Cons c cs)
  then have "entry_ok c" by simp
  then obtain d where d: "c = PDict d" by (rule entry_ok_cases)
  show ?case using Cons d by (simp add: succeeded_def split: option.splits)
qed

lemma valid_token_calls_ok:
  "list_all entry_ok cs \<Longrightarrow>
     valid_token_calls cs = Inr (filter (\<lambda>c. 0 \<le> field_num ''token_cost'' (- 1) c) cs)"
proof (induction cs)
  case Nil
  then show ?case by simp
next
  case (Cons c cs)
  then have "entry_ok c" by simp
  then obtain d where d: "c = PDict d" "field_ok d ''token_cost''"
    by (rule entry_ok_cases)
  show ?case using Cons d
    by (auto simp: field_num_def field_ok_def split: option.splits)
qed

lemma field_num_valid_default:
  "0 \<le> field_num ''token_cost'' (- 1) c \<Longrightarrow>
     field_num ''token_cost'' 0 c = field_num ''token_cost'' (- 1) c"
  by (auto simp: field_num_def split: pyval.splits option.splits)

lemma window_stats_ok:
  assumes "list_all entry_ok w"
  shows "window_stats n w =
     Inr \<lparr>total_calls = n,
          recent_calls_analyzed = length w,
          avg_time_cost = py_round (mean (map (field_num ''time_cost'' 0) w)) 3,
          success_rate =
            py_round (if w = [] then 0
                      else of_nat (length (filter succeeded w)) / of_nat (length w)) 4,
          avg_score = py_round (mean (map (field_num ''score'' 0) w)) 3,
          avg_token_cost =
            py_round (mean (map (field_num ''token_cost'' (- 1))
                         (filter (\<lambda>c. 0 \<le> field_num ''token_cost'' (- 1) c) w))) 2\<rparr>"
proof -
  let ?valid = "filter (\<lambda>c. 0 \<le> field_num ''token_cost'' (- 1) c) w"
  have t: "sum_field ''time_cost'' (PFloat 0) 0 w
           = Inr (sum_list (map (field_num ''time_cost'' 0) w))"
    using sum_field_ok[OF assms, of "''time_cost''" "PFloat 0" 0 0] by simp
  have s: "sum_field ''score'' (PFloat 0) 0 w = Inr (sum_list (map (field_num ''score'' 0) w))"
    using sum_field_ok[OF assms, of "''score''" "PFloat 0" 0 0] by simp
  have c: "count_successful 0 w = Inr (length (filter succeeded w))"
    using count_successful_ok[OF assms, of 0] by simp
  have v: "valid_token_calls w = Inr ?valid"
    using assms by (rule valid_token_calls_ok)
  have "list_all entry_ok ?valid" using assms by (simp add: list_all_iff)
  then have "sum_field ''token_cost'' (PInt 0) 0 ?valid
           = Inr (sum_list (map (field_num ''token_cost'' 0) ?valid))"
    using sum_field_ok[of ?valid "''token_cost''" "PInt 0" 0 0] by simp
  moreover have "map (field_num ''token_cost'' 0) ?valid
               = map (field_num ''token_cost'' (- 1)) ?valid"
    by (rule map_cong) (simp_all add: field_num_valid_default)
  ultimately have k: "sum_field ''token_cost'' (PInt 0) 0 ?valid
           = Inr (sum_list (map (field_num ''token_cost'' (- 1)) ?valid))"
    by simp
  show ?thesis
    by (simp add: window_stats_def Let_def t s c v k mean_def)
qed

end
